theory Spec2Isabelle
  imports Main
begin

section \<open>Text buffers\<close>

text \<open>
  A Python \<open>str\<close> is a sequence of Unicode code points, and every offset of the program
  (\<open>match.start()\<close>, \<open>match.end()\<close>, slice bounds) counts code points. A buffer is
  therefore a list of code points, each a natural number.
\<close>

type_synonym uchar = nat
type_synonym buf = "uchar list"

definition ascii :: "string \<Rightarrow> buf" where
  "ascii s = map of_char s"

text \<open>Python's \<open>content[a:b]\<close> for non-negative bounds: out-of-range bounds are clamped.\<close>

definition slice :: "buf \<Rightarrow> nat \<Rightarrow> nat \<Rightarrow> buf" where
  "slice content a b = drop a (take b content)"

text \<open>The patch expression \<open>content[:start] + translated + content[end:]\<close>.\<close>

definition splice :: "buf \<Rightarrow> nat \<Rightarrow> nat \<Rightarrow> buf \<Rightarrow> buf" where
  "splice content a b translated = take a content @ translated @ drop b content"

section \<open>String operations of the Python runtime\<close>

text \<open>
  The character tables of the Python runtime are not part of the program; they are taken as
  a parameter. \<open>is_alnum\<close> is \<open>str.isalnum\<close> on one character, \<open>is_space\<close> is
  \<open>str.isspace\<close> (also the class \<open>\s\<close> of \<open>re\<close>), \<open>is_digit\<close> is \<open>str.isdigit\<close>,
  and \<open>lower\<close> is \<open>str.lower\<close> on a whole string.
\<close>

record unicode =
  is_alnum :: "uchar \<Rightarrow> bool"
  is_space :: "uchar \<Rightarrow> bool"
  is_digit :: "uchar \<Rightarrow> bool"
  lower :: "buf \<Rightarrow> buf"

text \<open>The class \<open>\w\<close> of \<open>re\<close> on \<open>str\<close> patterns: alphanumeric or underscore.\<close>

definition is_word :: "unicode \<Rightarrow> uchar \<Rightarrow> bool" where
  "is_word u c = (is_alnum u c \<or> c = 95)"

definition startswith :: "buf \<Rightarrow> buf \<Rightarrow> bool" where
  "startswith s p = (take (length p) s = p)"

definition endswith :: "buf \<Rightarrow> buf \<Rightarrow> bool" where
  "endswith s p = (length p \<le> length s \<and> drop (length s - length p) s = p)"

text \<open>\<open>sub in s\<close> for strings.\<close>

fun contains :: "buf \<Rightarrow> buf \<Rightarrow> bool" where
  "contains sub [] = (sub = [])"
| "contains sub (c # cs) = (startswith (c # cs) sub \<or> contains sub cs)"

definition lstrip :: "unicode \<Rightarrow> buf \<Rightarrow> buf" where
  "lstrip u s = dropWhile (is_space u) s"

definition strip :: "unicode \<Rightarrow> buf \<Rightarrow> buf" where
  "strip u s = rev (dropWhile (is_space u) (rev (dropWhile (is_space u) s)))"

text \<open>\<open>s.split()\<close>: the maximal runs of non-whitespace characters; \<open>word\<close> is the
  run being read.\<close>

fun split_run :: "unicode \<Rightarrow> buf \<Rightarrow> buf \<Rightarrow> buf list" where
  "split_run u word [] = (if word = [] then [] else [word])"
| "split_run u word (c # cs) =
     (if is_space u c then (if word = [] then split_run u [] cs else word # split_run u [] cs)
      else split_run u (word @ [c]) cs)"

definition split_ws :: "unicode \<Rightarrow> buf \<Rightarrow> buf list" where
  "split_ws u s = split_run u [] s"

text \<open>\<open>sep.join(parts)\<close>.\<close>

fun join :: "buf \<Rightarrow> buf list \<Rightarrow> buf" where
  "join sep [] = []"
| "join sep [p] = p"
| "join sep (p # q # ps) = p @ sep @ join sep (q # ps)"

text \<open>\<open>s.split('\n')\<close>, for any one-character separator: never the empty list.\<close>

fun split_on :: "uchar \<Rightarrow> buf \<Rightarrow> buf list" where
  "split_on sep [] = [[]]"
| "split_on sep (c # cs) =
     (if c = sep then [] # split_on sep cs
      else (case split_on sep cs of l # ls \<Rightarrow> (c # l) # ls | [] \<Rightarrow> [[c]]))"

text \<open>\<open>s.replace(old, new)\<close>: the occurrences of \<open>old\<close> from the left, without overlap;
  \<open>skip\<close> counts the characters of an occurrence still to pass. An empty \<open>old\<close> matches
  before every character and at the end.\<close>

fun replace_from :: "buf \<Rightarrow> buf \<Rightarrow> nat \<Rightarrow> buf \<Rightarrow> buf" where
  "replace_from old new skip [] = []"
| "replace_from old new (Suc skip) (c # cs) = replace_from old new skip cs"
| "replace_from old new 0 (c # cs) =
     (if startswith (c # cs) old then new @ replace_from old new (length old - 1) cs
      else c # replace_from old new 0 cs)"

definition replace :: "buf \<Rightarrow> buf \<Rightarrow> buf \<Rightarrow> buf" where
  "replace s old new =
     (if old = [] then new @ concat (map (\<lambda>c. c # new) s) else replace_from old new 0 s)"

section \<open>Regular expressions\<close>

text \<open>
  The fragment of \<open>re\<close> that the patterns of the program use: character classes,
  concatenation, ordered alternation, the greedy and the lazy star, and the word boundary
  \<open>\b\<close>. \<open>rmatch\<close> lists the end offsets of all matches that start at \<open>i\<close>, in the order in
  which the backtracking matcher of \<open>re\<close> tries them; the match that \<open>re\<close> reports is the
  head of the list. An iteration of a star that consumes nothing is not repeated. The fuel
  \<open>length s - i\<close> of a star is the number of characters left: every iteration consumes at
  least one.
\<close>

datatype regex =
    Eps
  | Chr "uchar \<Rightarrow> bool"
  | Seq regex regex
  | Alt regex regex
  | Star regex
  | LazyStar regex
  | WordB

fun star_greedy :: "(nat \<Rightarrow> nat list) \<Rightarrow> nat \<Rightarrow> nat \<Rightarrow> nat list" where
  "star_greedy f 0 i = [i]"
| "star_greedy f (Suc n) i =
     concat (map (\<lambda>j. if i < j then star_greedy f n j else []) (f i)) @ [i]"

fun star_lazy :: "(nat \<Rightarrow> nat list) \<Rightarrow> nat \<Rightarrow> nat \<Rightarrow> nat list" where
  "star_lazy f 0 i = [i]"
| "star_lazy f (Suc n) i =
     i # concat (map (\<lambda>j. if i < j then star_lazy f n j else []) (f i))"

definition at_boundary :: "(uchar \<Rightarrow> bool) \<Rightarrow> buf \<Rightarrow> nat \<Rightarrow> bool" where
  "at_boundary w s i =
     ((0 < i \<and> i \<le> length s \<and> w (s ! (i - 1))) \<noteq> (i < length s \<and> w (s ! i)))"

primrec rmatch :: "(uchar \<Rightarrow> bool) \<Rightarrow> regex \<Rightarrow> buf \<Rightarrow> nat \<Rightarrow> nat list" where
  "rmatch w Eps s i = [i]"
| "rmatch w (Chr p) s i = (if i < length s \<and> p (s ! i) then [Suc i] else [])"
| "rmatch w (Seq a b) s i = concat (map (rmatch w b s) (rmatch w a s i))"
| "rmatch w (Alt a b) s i = rmatch w a s i @ rmatch w b s i"
| "rmatch w (Star a) s i = star_greedy (rmatch w a s) (length s - i) i"
| "rmatch w (LazyStar a) s i = star_lazy (rmatch w a s) (length s - i) i"
| "rmatch w WordB s i = (if at_boundary w s i then [i] else [])"

text \<open>
  A pattern of the shape \<open>a(g)c\<close> with one group of interest: the first way, in backtracking
  order, to match \<open>a\<close> from \<open>i\<close> to \<open>j\<close>, the group from \<open>j\<close> to \<open>k\<close> and \<open>c\<close> from \<open>k\<close> to
  \<open>e\<close>. The match is \<open>(i, e)\<close> and the group is \<open>(j, k)\<close>.
\<close>

definition match_at :: "(uchar \<Rightarrow> bool) \<Rightarrow> regex \<Rightarrow> regex \<Rightarrow> regex \<Rightarrow> buf \<Rightarrow> nat \<Rightarrow> (nat \<times> nat \<times> nat) option" where
  "match_at w a g c s i =
     (case concat (map (\<lambda>j. concat (map (\<lambda>k. map (\<lambda>e. (j, k, e)) (rmatch w c s k))
                                          (rmatch w g s j)))
                       (rmatch w a s i)) of
        [] \<Rightarrow> None
      | x # _ \<Rightarrow> Some x)"

text \<open>
  \<open>re.finditer\<close>: the matches from left to right without overlap. The start offsets are
  tried in order; those before \<open>next\<close>, where the scan goes on after a match, are
  passed over. After a match the scan goes on at its end, after an empty match one character
  further.
\<close>

fun scan :: "(nat \<Rightarrow> (nat \<times> nat \<times> nat) option) \<Rightarrow> nat list \<Rightarrow> nat \<Rightarrow> (nat \<times> nat \<times> nat \<times> nat) list" where
  "scan m [] next = []"
| "scan m (pos # rest) next =
     (if pos < next then scan m rest next
      else (case m pos of
              None \<Rightarrow> scan m rest next
            | Some (j, k, e) \<Rightarrow> (pos, j, k, e) # scan m rest (if pos < e then e else Suc pos)))"

text \<open>All matches of \<open>a(g)c\<close> in \<open>s\<close>: start, group start, group end, end.\<close>

definition finditer_group :: "(uchar \<Rightarrow> bool) \<Rightarrow> regex \<Rightarrow> regex \<Rightarrow> regex \<Rightarrow> buf \<Rightarrow> (nat \<times> nat \<times> nat \<times> nat) list" where
  "finditer_group w a g c s = scan (match_at w a g c s) [0 ..< Suc (length s)] 0"

text \<open>All matches of a pattern in \<open>s\<close>: start and end.\<close>

definition finditer :: "(uchar \<Rightarrow> bool) \<Rightarrow> regex \<Rightarrow> buf \<Rightarrow> (nat \<times> nat) list" where
  "finditer w r s = map (\<lambda>(i, j, k, e). (i, e)) (finditer_group w Eps r Eps s)"

section \<open>Spans and statistics\<close>

datatype span_type = Comment | String | VariableDeclaration | VariableUsage

text \<open>
  The dictionaries built by the extractors. \<open>sp_name\<close> is the key \<open>name\<close> of an identifier
  span, \<open>sp_content\<close> the key \<open>content\<close> of a string span, \<open>sp_full_match\<close> the key
  \<open>full_match\<close>; a key that a kind of span does not carry is the empty buffer.
\<close>

record span =
  sp_start :: nat
  sp_end :: nat
  sp_text :: buf
  sp_type :: span_type
  sp_name :: buf
  sp_full_match :: buf
  sp_content :: buf

record stats =
  processed_files :: nat
  translated_comments :: nat
  translated_strings :: nat
  translated_markdown :: nat
  translated_identifiers :: nat

section \<open>The patch loops of \<open>process_file\<close>\<close>

text \<open>
  The loop over \<open>elements_to_translate\<close>: \<open>translate\<close> stands for the call
  \<open>self.translate_text(original_text, element['type'], element.get('context', {}))\<close>.
  The state is the working buffer \<open>new_content\<close>, the counters and \<open>changes_made\<close>.
\<close>

fun apply_elements :: "(span \<Rightarrow> buf) \<Rightarrow> span list \<Rightarrow> buf \<times> stats \<times> bool \<Rightarrow> buf \<times> stats \<times> bool" where
  "apply_elements translate [] st = st"
| "apply_elements translate (element # rest) (new_content, st, changes_made) =
     (let original_text = sp_text element;
          translated = translate element
      in if translated \<noteq> original_text
         then apply_elements translate rest
                (splice new_content (sp_start element) (sp_end element) translated,
                 (if sp_type element = Comment
                  then st\<lparr>translated_comments := translated_comments st + 1\<rparr>
                  else st\<lparr>translated_strings := translated_strings st + 1\<rparr>),
                 True)
         else apply_elements translate rest (new_content, st, changes_made))"

text \<open>The loop over \<open>identifiers\<close>, on \<open>content_after_identifiers\<close>.\<close>

fun apply_identifiers :: "(span \<Rightarrow> buf) \<Rightarrow> span list \<Rightarrow> buf \<times> stats \<times> bool \<Rightarrow> buf \<times> stats \<times> bool" where
  "apply_identifiers translate [] st = st"
| "apply_identifiers translate (identifier # rest) (content_after_identifiers, st, changes_made) =
     (let original_text = sp_text identifier;
          translated = translate identifier
      in if translated \<noteq> original_text
         then apply_identifiers translate rest
                (splice content_after_identifiers (sp_start identifier) (sp_end identifier) translated,
                 st\<lparr>translated_identifiers := translated_identifiers st + 1\<rparr>,
                 True)
         else apply_identifiers translate rest (content_after_identifiers, st, changes_made))"

section \<open>Properties of a replacement list\<close>

text \<open>Sorted by descending start offset, as \<open>sorted(..., key=start, reverse=True)\<close> leaves it.\<close>

definition descending_starts :: "span list \<Rightarrow> bool" where
  "descending_starts es = sorted (rev (map sp_start es))"

definition overlap :: "span \<Rightarrow> span \<Rightarrow> bool" where
  "overlap a b = (sp_start a < sp_end b \<and> sp_start b < sp_end a)"

fun non_overlapping :: "span list \<Rightarrow> bool" where
  "non_overlapping [] = True"
| "non_overlapping (e # es) = ((\<forall>x \<in> set es. \<not> overlap e x) \<and> non_overlapping es)"

text \<open>The invariant of a span on its buffer snapshot: a non-empty range inside the buffer
  whose recorded text is the text of the range.\<close>

definition span_of :: "buf \<Rightarrow> span \<Rightarrow> bool" where
  "span_of content e =
     (sp_start e < sp_end e \<and> sp_end e \<le> length content \<and>
      sp_text e = slice content (sp_start e) (sp_end e))"

text \<open>
  The intended result, written without any offset arithmetic on a changing buffer: for the
  spans in descending order and the part of the original buffer below \<open>hi\<close>, the text left
  of the span, the new text of the span, and the original text between the span and \<open>hi\<close>.
\<close>

fun assemble :: "(span \<Rightarrow> buf) \<Rightarrow> buf \<Rightarrow> span list \<Rightarrow> nat \<Rightarrow> buf" where
  "assemble translate content [] hi = take hi content"
| "assemble translate content (e # es) hi =
     assemble translate content es (sp_start e) @ translate e @ slice content (sp_end e) hi"

text \<open>The buffer component of either loop, on its own.\<close>

fun patched :: "(span \<Rightarrow> buf) \<Rightarrow> span list \<Rightarrow> buf \<Rightarrow> buf" where
  "patched translate [] content = content"
| "patched translate (e # es) content =
     patched translate es
       (if translate e \<noteq> sp_text e
        then splice content (sp_start e) (sp_end e) (translate e) else content)"

text \<open>Each span ends at or before the start of every span processed before it.\<close>

fun chain :: "span list \<Rightarrow> bool" where
  "chain [] = True"
| "chain (e # es) = ((\<forall>x \<in> set es. sp_end x \<le> sp_start e) \<and> chain es)"

section \<open>Example inputs\<close>

definition ex_buffer :: buf where
  "ex_buffer = [97, 98, 32, 99, 100, 32, 101, 102]"

definition ex_spans :: "span list" where
  "ex_spans =
     [\<lparr>sp_start = 6, sp_end = 8, sp_text = [101, 102], sp_type = Comment,
       sp_name = [], sp_full_match = [], sp_content = []\<rparr>,
      \<lparr>sp_start = 0, sp_end = 2, sp_text = [97, 98], sp_type = String,
       sp_name = [], sp_full_match = [], sp_content = []\<rparr>]"

definition ex_stats :: stats where
  "ex_stats = \<lparr>processed_files = 0, translated_comments = 0, translated_strings = 0,
      translated_markdown = 0, translated_identifiers = 0\<rparr>"

section \<open>The script detector\<close>

text \<open>\<open>contains_chinese\<close>: a search for the class \<open>[\u4e00-\u9fff]\<close>.\<close>

definition is_chinese :: "uchar \<Rightarrow> bool" where
  "is_chinese c = (19968 \<le> c \<and> c \<le> 40959)"

definition contains_chinese :: "buf \<Rightarrow> bool" where
  "contains_chinese t = list_ex is_chinese t"

section \<open>The patterns of the program\<close>

text \<open>A literal piece of a pattern.\<close>

fun lit :: "buf \<Rightarrow> regex" where
  "lit [] = Eps"
| "lit (c # cs) = Seq (Chr (\<lambda>x. x = c)) (lit cs)"

text \<open>\<open>.\<close> without \<open>DOTALL\<close> is any character but the newline; \<open>[\s\S]\<close> is any character.\<close>

definition dot :: regex where
  "dot = Chr (\<lambda>c. c \<noteq> 10)"

definition any_char :: regex where
  "any_char = Chr (\<lambda>c. True)"

definition hash_comment :: regex where
  "hash_comment = Seq (lit (ascii ''#'')) (Star dot)"

definition slash_comment :: regex where
  "slash_comment = Seq (lit (ascii ''//'')) (Star dot)"

definition block_comment :: regex where
  "block_comment = Seq (lit (ascii ''/*'')) (Seq (LazyStar any_char) (lit (ascii ''*/'')))"

text \<open>\<open>'''[\s\S]*?'''|"""[\s\S]*?"""\<close>; 39 is the single and 34 the double quote.\<close>

definition triple_quoted :: regex where
  "triple_quoted =
     Alt (Seq (lit [39, 39, 39]) (Seq (LazyStar any_char) (lit [39, 39, 39])))
         (Seq (lit [34, 34, 34]) (Seq (LazyStar any_char) (lit [34, 34, 34])))"

definition html_single :: regex where
  "html_single = Seq (lit (ascii ''<!--'')) (Seq (LazyStar dot) (lit (ascii ''-->'')))"

definition html_multi :: regex where
  "html_multi = Seq (lit (ascii ''<!--'')) (Seq (LazyStar any_char) (lit (ascii ''-->'')))"

text \<open>The table \<open>self.comment_patterns\<close>: the pair (\<open>single_line\<close>, \<open>multi_line\<close>) of a
  file extension.\<close>

definition comment_patterns :: "string \<Rightarrow> (regex \<times> regex) option" where
  "comment_patterns ext =
     (if ext = ''.py'' then Some (hash_comment, triple_quoted)
      else if ext \<in> set [''.cpp'', ''.c'', ''.java'', ''.js'', ''.ts'', ''.css'', ''.h'', ''.ino'']
      then Some (slash_comment, block_comment)
      else if ext = ''.html'' then Some (html_single, html_multi)
      else if ext = ''.php'' then Some (Alt hash_comment slash_comment, block_comment)
      else if ext = ''.md'' then Some (Eps, Eps)
      else None)"

text \<open>\<open>"(?:\\.|[^"\\])*"\<close>; 92 is the backslash.\<close>

definition string_pattern :: regex where
  "string_pattern =
     Seq (Chr (\<lambda>c. c = 34))
         (Seq (Star (Alt (Seq (Chr (\<lambda>c. c = 92)) dot) (Chr (\<lambda>c. c \<noteq> 34 \<and> c \<noteq> 92))))
              (Chr (\<lambda>c. c = 34)))"

text \<open>\<open>[\u4e00-\u9fff_a-zA-Z0-9]\<close>.\<close>

definition ident_char :: "uchar \<Rightarrow> bool" where
  "ident_char c =
     (is_chinese c \<or> c = 95 \<or> (97 \<le> c \<and> c \<le> 122) \<or> (65 \<le> c \<and> c \<le> 90) \<or> (48 \<le> c \<and> c \<le> 57))"

definition chinese_word :: regex where
  "chinese_word = Seq (Chr is_chinese) (Star (Chr ident_char))"

definition type_keyword :: regex where
  "type_keyword =
     Alt (lit (ascii ''int'')) (Alt (lit (ascii ''char'')) (Alt (lit (ascii ''float''))
    (Alt (lit (ascii ''double'')) (Alt (lit (ascii ''void'')) (Alt (lit (ascii ''bool''))
    (Alt (lit (ascii ''string'')) (Alt (lit (ascii ''long'')) (lit (ascii ''short'')))))))))"

text \<open>
  \<open>variable_pattern\<close> in three parts: \<open>\b(int|...|short)\s+\<close>, then group 2
  \<open>\*?\s*[\u4e00-\u9fff][\u4e00-\u9fff_a-zA-Z0-9]*\<close>, then \<open>\b\<close>; 42 is the asterisk.
\<close>

definition variable_head :: "unicode \<Rightarrow> regex" where
  "variable_head u =
     Seq WordB (Seq type_keyword (Seq (Chr (is_space u)) (Star (Chr (is_space u)))))"

definition variable_group :: "unicode \<Rightarrow> regex" where
  "variable_group u =
     Seq (Alt (Chr (\<lambda>c. c = 42)) Eps) (Seq (Star (Chr (is_space u))) chinese_word)"

section \<open>The lexical scanner\<close>

text \<open>\<open>sorted(xs, key=lambda x: x['start'], reverse=True)\<close>: descending and stable.\<close>

definition sorted_desc :: "span list \<Rightarrow> span list" where
  "sorted_desc xs = sort_key (\<lambda>x. - int (sp_start x)) xs"

definition comment_span :: "buf \<Rightarrow> nat \<times> nat \<Rightarrow> span" where
  "comment_span content m =
     \<lparr>sp_start = fst m, sp_end = snd m, sp_text = slice content (fst m) (snd m),
      sp_type = Comment, sp_name = [], sp_full_match = [], sp_content = []\<rparr>"

definition extract_comments :: "unicode \<Rightarrow> buf \<Rightarrow> string \<Rightarrow> span list" where
  "extract_comments u content file_extension =
     (case comment_patterns file_extension of
        None \<Rightarrow> []
      | Some (single_line, multi_line) \<Rightarrow>
          sorted_desc
            (filter (\<lambda>c. contains_chinese (sp_text c))
               (map (comment_span content) (finditer (is_word u) single_line content))
             @ filter (\<lambda>c. contains_chinese (sp_text c))
               (map (comment_span content) (finditer (is_word u) multi_line content))))"

definition string_span :: "buf \<Rightarrow> nat \<times> nat \<Rightarrow> span" where
  "string_span content m =
     (let full_string = slice content (fst m) (snd m)
      in \<lparr>sp_start = fst m, sp_end = snd m, sp_text = full_string,
          sp_type = String, sp_name = [], sp_full_match = [],
          sp_content = slice full_string 1 (length full_string - 1)\<rparr>)"

definition extract_strings :: "unicode \<Rightarrow> buf \<Rightarrow> string \<Rightarrow> span list" where
  "extract_strings u content file_extension =
     sorted_desc
       (filter (\<lambda>s. contains_chinese (sp_content s))
          (map (string_span content) (finditer (is_word u) string_pattern content)))"

definition declaration_span :: "unicode \<Rightarrow> buf \<Rightarrow> nat \<times> nat \<times> nat \<times> nat \<Rightarrow> span" where
  "declaration_span u content m =
     (case m of (i, j, k, e) \<Rightarrow>
        \<lparr>sp_start = i, sp_end = e, sp_text = slice content i e,
         sp_type = VariableDeclaration, sp_name = strip u (slice content j k),
         sp_full_match = slice content i e, sp_content = []\<rparr>)"

definition usage_span :: "buf \<Rightarrow> nat \<times> nat \<times> nat \<times> nat \<Rightarrow> span" where
  "usage_span content m =
     (case m of (i, j, k, e) \<Rightarrow>
        \<lparr>sp_start = i, sp_end = e, sp_text = slice content j k,
         sp_type = VariableUsage, sp_name = slice content j k,
         sp_full_match = slice content j k, sp_content = []\<rparr>)"

text \<open>The guard of the usage rule: the window of two characters around the match holds
  no quote and no comment opener.\<close>

definition usage_guard :: "buf \<Rightarrow> nat \<times> nat \<times> nat \<times> nat \<Rightarrow> bool" where
  "usage_guard content m =
     (case m of (i, j, k, e) \<Rightarrow>
        (let context_start = i - 2;
             context_end = min (length content) (e + 2);
             context = slice content context_start context_end
         in \<not> (34 \<in> set context \<or> 39 \<in> set context
               \<or> contains (ascii ''//'') context \<or> contains (ascii ''/*'') context)))"

definition extract_identifiers :: "unicode \<Rightarrow> buf \<Rightarrow> string \<Rightarrow> span list" where
  "extract_identifiers u content file_extension =
     (if file_extension \<notin> set [''.c'', ''.cpp'', ''.h'', ''.java'', ''.js'', ''.ts''] then []
      else sorted_desc
        (filter (\<lambda>d. contains_chinese (sp_name d))
           (map (declaration_span u content)
              (finditer_group (is_word u) (variable_head u) (variable_group u) WordB content))
         @ filter (\<lambda>d. contains_chinese (sp_name d))
           (map (usage_span content)
              (filter (usage_guard content)
                 (finditer_group (is_word u) WordB chinese_word WordB content)))))"

section \<open>The translation adapter\<close>

text \<open>
  The external call \<open>self.translator.translate\<close> is a parameter \<open>tr\<close>: \<open>None\<close> when the
  call raises, \<open>Some\<close> of the translation otherwise.
\<close>

type_synonym translator = "buf \<Rightarrow> buf option"

text \<open>\<open>re.sub(r'\s+', '_', s)\<close>: every maximal run of whitespace becomes one underscore;
  \<open>in_run\<close> says that the character before was whitespace.\<close>

fun underscore_from :: "unicode \<Rightarrow> bool \<Rightarrow> buf \<Rightarrow> buf" where
  "underscore_from u in_run [] = []"
| "underscore_from u in_run (c # cs) =
     (if is_space u c then (if in_run then underscore_from u True cs else 95 # underscore_from u True cs)
      else c # underscore_from u False cs)"

definition underscore_runs :: "unicode \<Rightarrow> buf \<Rightarrow> buf" where
  "underscore_runs u s = underscore_from u False s"

text \<open>The steps of \<open>translate_identifier_name\<close> after the translation call.\<close>

definition snake_case_of :: "unicode \<Rightarrow> buf \<Rightarrow> buf \<Rightarrow> buf" where
  "snake_case_of u chinese_name translated =
     (let cleaned = filter (\<lambda>c. is_word u c \<or> is_space u c) translated;
          snake_case = lower u (underscore_runs u (strip u cleaned));
          snake_case = (if snake_case \<noteq> [] \<and> is_digit u (hd snake_case)
                        then ascii ''var_'' @ snake_case else snake_case);
          snake_case = (if 42 \<in> set chinese_name then 42 # snake_case else snake_case)
      in snake_case)"

definition translate_identifier_name :: "unicode \<Rightarrow> translator \<Rightarrow> buf \<Rightarrow> buf" where
  "translate_identifier_name u tr chinese_name =
     (let clean_name = strip u (replace chinese_name [42] [])
      in case tr clean_name of
           None \<Rightarrow> chinese_name
         | Some translated \<Rightarrow> snake_case_of u chinese_name translated)"

text \<open>\<open>translate_comment\<close> has no handler of its own: \<open>None\<close> is an exception that leaves it.\<close>

definition translate_comment :: "unicode \<Rightarrow> translator \<Rightarrow> buf \<Rightarrow> buf option" where
  "translate_comment u tr comment_text =
     (if startswith comment_text (ascii ''#'') then
        (let content = lstrip u (drop 1 comment_text)
         in if contains_chinese content
            then map_option (\<lambda>translated. ascii ''# '' @ translated) (tr content)
            else Some comment_text)
      else if startswith comment_text (ascii ''//'') then
        (let content = lstrip u (drop 2 comment_text)
         in if contains_chinese content
            then map_option (\<lambda>translated. ascii ''// '' @ translated) (tr content)
            else Some comment_text)
      else if startswith comment_text (ascii ''/*'') \<and> endswith comment_text (ascii ''*/'') then
        (let content = strip u (slice comment_text 2 (length comment_text - 2))
         in if contains_chinese content
            then (case tr content of
                    None \<Rightarrow> None
                  | Some translated \<Rightarrow>
                      if 10 \<in> set comment_text
                      then map_option
                             (\<lambda>translated_lines. ascii ''/*'' @ [10] @ join [10] translated_lines @ [10] @ ascii ''*/'')
                             (those (map (\<lambda>line. if contains_chinese (strip u line)
                                                   then tr (strip u line) else Some line)
                                         (split_on 10 content)))
                      else Some (ascii ''/* '' @ translated @ ascii '' */''))
            else Some comment_text)
      else if startswith comment_text (ascii ''<!--'') \<and> endswith comment_text (ascii ''-->'') then
        (let content = strip u (slice comment_text 4 (length comment_text - 3))
         in if contains_chinese content
            then map_option (\<lambda>translated. ascii ''<!-- '' @ translated @ ascii '' -->'') (tr content)
            else Some comment_text)
      else Some comment_text)"

definition translate_string :: "translator \<Rightarrow> span \<Rightarrow> buf" where
  "translate_string tr string_data =
     (let string_content = sp_content string_data
      in if \<not> contains_chinese string_content then sp_text string_data
         else (case tr string_content of
                 Some translated_content \<Rightarrow> [34] @ translated_content @ [34]
               | None \<Rightarrow> sp_text string_data))"

text \<open>
  \<open>translate_identifier\<close>. Its callers pass spans of the two identifier types only; for
  the other types the Python function falls off its end.
\<close>

definition translate_identifier :: "unicode \<Rightarrow> translator \<Rightarrow> span \<Rightarrow> buf" where
  "translate_identifier u tr identifier_data =
     (let chinese_name = sp_name identifier_data
      in if \<not> contains_chinese chinese_name then sp_text identifier_data
         else (let translated_name = translate_identifier_name u tr chinese_name
               in if sp_type identifier_data = VariableDeclaration then
                    (let original_text = sp_full_match identifier_data;
                         parts = split_ws u original_text
                     in if 2 \<le> length parts
                        then join (ascii '' '') (butlast parts @ [translated_name])
                        else replace original_text chinese_name translated_name)
                  else if sp_type identifier_data = VariableUsage then translated_name
                  else sp_text identifier_data))"

text \<open>\<open>translate_text\<close>: the handler around the three translators returns \<open>text\<close>.\<close>

definition translate_text :: "unicode \<Rightarrow> translator \<Rightarrow> span \<Rightarrow> buf" where
  "translate_text u tr element =
     (case sp_type element of
        Comment \<Rightarrow> (case translate_comment u tr (sp_text element) of
                      Some translated \<Rightarrow> translated
                    | None \<Rightarrow> sp_text element)
      | String \<Rightarrow> translate_string tr element
      | VariableDeclaration \<Rightarrow> translate_identifier u tr element
      | VariableUsage \<Rightarrow> translate_identifier u tr element)"

section \<open>The file pipeline\<close>

text \<open>The loop of \<open>process_markdown_file\<close> over the lines: the new lines and the number
  of lines translated.\<close>

fun markdown_lines :: "translator \<Rightarrow> buf list \<Rightarrow> buf list \<times> nat" where
  "markdown_lines tr [] = ([], 0)"
| "markdown_lines tr (line # rest) =
     (let (lines, translated_count) = markdown_lines tr rest
      in if contains_chinese line
         then (case tr line of
                 Some translated \<Rightarrow> (translated # lines, translated_count + 1)
               | None \<Rightarrow> (line # lines, translated_count))
         else (line # lines, translated_count))"

definition process_markdown_file :: "translator \<Rightarrow> buf \<Rightarrow> stats \<Rightarrow> buf \<times> nat \<times> stats" where
  "process_markdown_file tr content st =
     (let (lines, translated_count) = markdown_lines tr (split_on 10 content)
      in (join [10] lines, translated_count,
          st\<lparr>translated_markdown := translated_markdown st + translated_count\<rparr>))"

text \<open>
  \<open>process_file\<close> on a file that was read: the extension, the text read and the counters
  go in; the value returned, the text of the file afterwards and the counters come out.
\<close>

definition process_file :: "unicode \<Rightarrow> translator \<Rightarrow> string \<Rightarrow> buf \<Rightarrow> stats \<Rightarrow> bool \<times> buf \<times> stats" where
  "process_file u tr file_extension original_content st =
     (if file_extension = ''.md'' then
        (case process_markdown_file tr original_content st of
           (new_content, translated_count, st1) \<Rightarrow>
             if 0 < translated_count
             then (True, new_content, st1\<lparr>processed_files := processed_files st1 + 1\<rparr>)
             else (False, original_content, st1))
      else
        (let identifiers = extract_identifiers u original_content file_extension;
             (content, st1, changes_made) =
               (if identifiers \<noteq> []
                then apply_identifiers (translate_text u tr) identifiers (original_content, st, False)
                else (original_content, st, False));
             comments = extract_comments u content file_extension;
             strings = extract_strings u content file_extension;
             elements_to_translate = sorted_desc (comments @ strings);
             (new_content, st2, changes_made) =
               apply_elements (translate_text u tr) elements_to_translate (content, st1, changes_made)
         in if changes_made \<and> new_content \<noteq> original_content
            then (True, new_content, st2\<lparr>processed_files := processed_files st2 + 1\<rparr>)
            else (False, original_content, st2)))"

text \<open>
  The character tables of CPython on the ASCII characters and the CJK block
  \<open>4E00\<close> to \<open>9FFF\<close>; every example below is made of such characters only.
\<close>

definition ascii_cjk :: unicode where
  "ascii_cjk =
     \<lparr>is_alnum = (\<lambda>c. (48 \<le> c \<and> c \<le> 57) \<or> (65 \<le> c \<and> c \<le> 90) \<or> (97 \<le> c \<and> c \<le> 122) \<or> is_chinese c),
      is_space = (\<lambda>c. (9 \<le> c \<and> c \<le> 13) \<or> (28 \<le> c \<and> c \<le> 32)),
      is_digit = (\<lambda>c. 48 \<le> c \<and> c \<le> 57),
      lower = map (\<lambda>c. if 65 \<le> c \<and> c \<le> 90 then c + 32 else c)\<rparr>"

text \<open>A translation service that knows a few words and raises on everything else:
  \<open>35745 25968 22120\<close> is the name of the spec's example, \<open>28040 24687\<close> another name.\<close>

definition dictionary :: translator where
  "dictionary = map_of
     [([35745, 25968, 22120], ascii ''counter''),
      ([28040, 24687], ascii ''message'')]"

text \<open>What the loop of \<open>process_markdown_file\<close> leaves in place of one line.\<close>

definition markdown_line :: "translator \<Rightarrow> buf \<Rightarrow> buf" where
  "markdown_line tr line =
     (if contains_chinese line then (case tr line of Some t \<Rightarrow> t | None \<Rightarrow> line) else line)"

text \<open>A documentation file of two lines, the second in the source script, and a
  translation service with one answer.\<close>

definition md_ex :: buf where
  "md_ex = [97, 10, 20013]"

definition md_tr :: translator where
  "md_tr = (\<lambda>line. Some (ascii ''middle''))"

section \<open>The stages of the pipeline, one by one\<close>

text \<open>The replacements that a loop applies: the spans whose translation differs from
  their text.\<close>

definition applied :: "(span \<Rightarrow> buf) \<Rightarrow> span list \<Rightarrow> span list" where
  "applied translate es = filter (\<lambda>e. translate e \<noteq> sp_text e) es"

text \<open>The buffer after the identifier pass, the list \<open>elements_to_translate\<close> computed on
  a buffer, and the buffer after both passes.\<close>

definition after_identifiers :: "unicode \<Rightarrow> translator \<Rightarrow> string \<Rightarrow> buf \<Rightarrow> buf" where
  "after_identifiers u tr file_extension content =
     patched (translate_text u tr) (extract_identifiers u content file_extension) content"

definition elements_of :: "unicode \<Rightarrow> buf \<Rightarrow> string \<Rightarrow> span list" where
  "elements_of u content file_extension =
     sorted_desc (extract_comments u content file_extension @ extract_strings u content file_extension)"

definition final_buffer :: "unicode \<Rightarrow> translator \<Rightarrow> string \<Rightarrow> buf \<Rightarrow> buf" where
  "final_buffer u tr file_extension content =
     patched (translate_text u tr)
       (elements_of u (after_identifiers u tr file_extension content) file_extension)
       (after_identifiers u tr file_extension content)"

text \<open>A comment in a Python file; and a C comment with a translation service that
  answers a word of the source script by another one: \<open>30002\<close> by \<open>20057\<close>, and the
  comment text with \<open>20057\<close> by the same with \<open>30002\<close>.\<close>

definition comment_ex :: buf where
  "comment_ex = ascii ''# '' @ [20013]"

definition swap_ex :: buf where
  "swap_ex = ascii ''// a '' @ [30002]"

definition swap_tr :: translator where
  "swap_tr = map_of [([30002], [20057]), (ascii ''a '' @ [20057], ascii ''a '' @ [30002])]"

text \<open>
  Inputs of the identifier pass: the declaration of the spec's example, the same with two
  spaces after the type, a pointer declaration with a space after the asterisk, a comment
  that holds a string literal, and a translation service whose every call raises.
\<close>

definition decl_ex :: buf where
  "decl_ex = ascii ''int '' @ [35745, 25968, 22120]"

definition quoted_comment_ex :: buf where
  "quoted_comment_ex = ascii ''// '' @ [34, 20013, 34]"

definition wide_decl_ex :: buf where
  "wide_decl_ex = ascii ''int  '' @ [35745, 25968, 22120]"

definition pointer_decl_ex :: buf where
  "pointer_decl_ex = ascii ''char * '' @ [28040, 24687]"

definition failing :: translator where
  "failing = (\<lambda>t. None)"

definition span_range :: "span \<Rightarrow> nat \<times> nat \<times> span_type" where
  "span_range e = (sp_start e, sp_end e, sp_type e)"






text \<open>A documentation file of two lines with a translation service whose answer holds a
  newline; and the assignment of a single-quoted literal that holds a double-quoted
  stretch in the source script.\<close>

definition two_line_ex :: buf where
  "two_line_ex = [20013, 10, 120]"

definition newline_tr :: translator where
  "newline_tr = (\<lambda>line. Some [97, 10, 98])"


text \<open>A C file with a string literal in the source script, a word of it and a lone
  double quote; and a translation service that never raises and never answers in the
  source script, but answers the literal's text with a text that holds a double quote.\<close>

definition unbalanced_ex :: buf where
  "unbalanced_ex = [34, 20013, 34, 32, 25991, 32, 34]"

definition quote_tr :: translator where
  "quote_tr = (\<lambda>t. if t = [20013] then Some [97, 34, 98] else Some (ascii ''text''))"

section \<open>The positional patcher\<close>

lemma fst_apply_elements:
  "fst (apply_elements f es (c, st, ch)) = patched f es c"
  by (induction es arbitrary: c st ch) (auto simp: Let_def)

lemma fst_apply_identifiers:
  "fst (apply_identifiers f es (c, st, ch)) = patched f es c"
  by (induction es arbitrary: c st ch) (auto simp: Let_def)

lemma chain_of_sorted:
  "descending_starts es \<Longrightarrow> non_overlapping es \<Longrightarrow> \<forall>e \<in> set es. sp_start e < sp_end e \<Longrightarrow> chain es"
proof (induction es)
  case Nil then show ?case by simp
next
  case (Cons e es)
  have d: "descending_starts es" and le: "\<forall>x \<in> set es. sp_start x \<le> sp_start e"
    using Cons.prems(1) by (auto simp: descending_starts_def sorted_append)
  have "\<forall>x \<in> set es. sp_end x \<le> sp_start e"
  proof
    fix x assume x: "x \<in> set es"
    with Cons.prems(2) have "\<not> overlap e x" by simp
    moreover have "sp_start x \<le> sp_start e" using le x by simp
    moreover have "sp_start e < sp_end e" "sp_start x < sp_end x" using Cons.prems(3) x by auto
    ultimately show "sp_end x \<le> sp_start e" by (auto simp: overlap_def)
  qed
  with Cons d show ?case by simp
qed

lemma splice_step:
  assumes "b \<le> hi" "hi \<le> length content" "a \<le> b"
  shows "splice (take hi content @ suf) a b t = take a content @ t @ slice content b hi @ suf"
  using assms by (simp add: splice_def slice_def)

lemma take_split3:
  assumes "a \<le> b" "b \<le> hi"
  shows "take hi xs = take a xs @ slice xs a b @ slice xs b hi"
proof -
  have 1: "take b xs = take a xs @ drop a (take b xs)"
    using assms by (metis append_take_drop_id min.absorb1 take_take)
  have 2: "take hi xs = take b xs @ drop b (take hi xs)"
    using assms by (metis append_take_drop_id min.absorb1 take_take)
  show ?thesis unfolding slice_def using 1 2 by (metis append.assoc)
qed

lemma keep_step:
  assumes "b \<le> hi" "hi \<le> length content" "a \<le> b"
  shows "take hi content @ suf = take a content @ slice content a b @ slice content b hi @ suf"
  using take_split3[OF assms(3) assms(1), of content] by simp

lemma patched_assemble:
  assumes "\<forall>e \<in> set es. span_of content e" "chain es" "\<forall>e \<in> set es. sp_end e \<le> hi" "hi \<le> length content"
  shows "patched f es (take hi content @ suf) = assemble f content es hi @ suf"
  using assms
proof (induction es arbitrary: hi suf)
  case Nil then show ?case by simp
next
  case (Cons e es)
  let ?a = "sp_start e" and ?b = "sp_end e"
  have sp: "?a < ?b" "?b \<le> hi" "sp_text e = slice content ?a ?b"
    using Cons.prems by (auto simp: span_of_def)
  have next_buf: "(if f e \<noteq> sp_text e then splice (take hi content @ suf) ?a ?b (f e) else take hi content @ suf)
       = take ?a content @ (f e @ slice content ?b hi @ suf)"
    using splice_step[of ?b hi content ?a suf "f e"] keep_step[of ?b hi content ?a suf] sp Cons.prems(4)
    by auto
  have "patched f es (take ?a content @ (f e @ slice content ?b hi @ suf))
        = assemble f content es ?a @ (f e @ slice content ?b hi @ suf)"
    using Cons.prems sp by (intro Cons.IH) auto
  then show ?case using next_buf by simp
qed

lemma assemble_prefix:
  assumes "\<forall>e \<in> set es. lo \<le> sp_start e" "lo \<le> hi"
  shows "\<exists>r. assemble f content es hi = take lo content @ r"
  using assms
proof (induction es arbitrary: hi)
  case Nil
  have "take hi content = take lo content @ drop lo (take hi content)"
    using Nil by (metis append_take_drop_id min.absorb1 take_take)
  then show ?case by auto
next
  case (Cons e es)
  have "\<exists>r. assemble f content es (sp_start e) = take lo content @ r"
    using Cons.prems by (intro Cons.IH) auto
  then show ?case by auto
qed

lemma take_assemble:
  assumes "\<forall>e \<in> set es. lo \<le> sp_start e" "lo \<le> hi" "lo \<le> length content"
  shows "take lo (assemble f content es hi) = take lo content"
proof -
  obtain r where "assemble f content es hi = take lo content @ r"
    using assemble_prefix[OF assms(1,2)] by blast
  then show ?thesis using assms(3) by simp
qed

lemma chain_take: "chain es \<Longrightarrow> chain (take k es)"
proof (induction es arbitrary: k)
  case Nil then show ?case by simp
next
  case (Cons e es)
  show ?case
  proof (cases k)
    case 0 then show ?thesis by simp
  next
    case (Suc n)
    have "set (take n es) \<subseteq> set es" by (rule set_take_subset)
    with Cons Suc show ?thesis by auto
  qed
qed

lemma chain_nth:
  "chain es \<Longrightarrow> k < length es \<Longrightarrow> x \<in> set (take k es) \<Longrightarrow> sp_end (es ! k) \<le> sp_start x"
proof (induction es arbitrary: k)
  case Nil then show ?case by simp
next
  case (Cons e es)
  show ?case
  proof (cases k)
    case 0 with Cons.prems show ?thesis by simp
  next
    case (Suc n)
    with Cons.prems have "x = e \<or> x \<in> set (take n es)" by auto
    then show ?thesis
    proof
      assume "x = e"
      moreover have "es ! n \<in> set es" using Cons.prems Suc by simp
      ultimately show ?thesis using Cons.prems(1) Suc by simp
    next
      assume "x \<in> set (take n es)"
      then show ?thesis using Cons Suc by simp
    qed
  qed
qed

text \<open>
  C1. For a buffer and a list of replacements whose spans are pairwise non-overlapping and
  sorted by descending start offset, the sequential loop yields the buffer in which every
  part outside the spans is the original text and every span's range holds its new text
  (\<open>assemble\<close>); and when a span's turn comes, the working buffer up to the span's end is
  still the original one, so the stored offsets of every unprocessed span are valid.
\<close>

theorem apply_replacements_correct:
  assumes "\<forall>e \<in> set es. span_of content e"
    and "descending_starts es" and "non_overlapping es"
  shows "fst (apply_elements translate es (content, st, ch)) = assemble translate content es (length content)
       \<and> fst (apply_identifiers translate es (content, st, ch)) = assemble translate content es (length content)
       \<and> (\<forall>k < length es.
             take (sp_end (es ! k)) (fst (apply_elements translate (take k es) (content, st, ch)))
               = take (sp_end (es ! k)) content)"
proof -
  have c: "chain es" using assms by (intro chain_of_sorted) (auto simp: span_of_def)
  have le: "\<forall>e \<in> set es. sp_end e \<le> length content" using assms(1) by (auto simp: span_of_def)
  have main: "patched translate es content = assemble translate content es (length content)"
    using patched_assemble[OF assms(1) c le order_refl, where suf="[]" and f=translate] by simp
  have valid: "take (sp_end (es ! k)) (patched translate (take k es) content)
               = take (sp_end (es ! k)) content" if k: "k < length es" for k
  proof -
    have sub: "set (take k es) \<subseteq> set es" by (rule set_take_subset)
    have 1: "\<forall>e \<in> set (take k es). span_of content e" using assms(1) sub by auto
    have 2: "\<forall>e \<in> set (take k es). sp_end e \<le> length content" using le sub by auto
    have "patched translate (take k es) content = assemble translate content (take k es) (length content)"
      using patched_assemble[OF 1 chain_take[OF c] 2 order_refl, where suf="[]" and f=translate] by simp
    moreover have "\<forall>x \<in> set (take k es). sp_end (es ! k) \<le> sp_start x"
      using chain_nth[OF c k] by blast
    moreover have "sp_end (es ! k) \<le> length content" using le k by simp
    ultimately show ?thesis using take_assemble by simp
  qed
  show ?thesis using main valid by (simp add: fst_apply_elements fst_apply_identifiers)
qed

theorem apply_replacements_correct_witness:
  "list_all (span_of ex_buffer) ex_spans \<and> descending_starts ex_spans \<and> non_overlapping ex_spans
   \<and> fst (apply_elements (\<lambda>e. [120, 121, 122]) ex_spans (ex_buffer, ex_stats, False))
       = [120, 121, 122, 32, 99, 100, 32, 120, 121, 122]
   \<and> take 2 (fst (apply_elements (\<lambda>e. [120, 121, 122]) (take 1 ex_spans) (ex_buffer, ex_stats, False)))
       = [97, 98]"
proof -
  have h1: "\<forall>e \<in> set ex_spans. span_of ex_buffer e"
    by (simp add: ex_spans_def ex_buffer_def span_of_def slice_def)
  have h2: "descending_starts ex_spans"
    by (simp add: ex_spans_def descending_starts_def)
  have h3: "non_overlapping ex_spans"
    by (simp add: ex_spans_def overlap_def)
  note t = apply_replacements_correct[OF h1 h2 h3, of "\<lambda>e. [120, 121, 122]" ex_stats False]
  have a: "assemble (\<lambda>e. [120, 121, 122]) ex_buffer ex_spans (length ex_buffer)
       = [120, 121, 122, 32, 99, 100, 32, 120, 121, 122]"
    by (simp add: ex_spans_def ex_buffer_def slice_def)
  have len: "(1::nat) < length ex_spans" by (simp add: ex_spans_def)
  have "\<forall>k < length ex_spans.
          take (sp_end (ex_spans ! k)) (fst (apply_elements (\<lambda>e. [120, 121, 122]) (take k ex_spans) (ex_buffer, ex_stats, False)))
        = take (sp_end (ex_spans ! k)) ex_buffer"
    using t by blast
  from this len have "take (sp_end (ex_spans ! 1)) (fst (apply_elements (\<lambda>e. [120, 121, 122]) (take 1 ex_spans) (ex_buffer, ex_stats, False)))
      = take (sp_end (ex_spans ! 1)) ex_buffer"
    by blast
  then have b: "take 2 (fst (apply_elements (\<lambda>e. [120, 121, 122]) (take 1 ex_spans) (ex_buffer, ex_stats, False)))
       = [97, 98]"
    by (simp add: ex_spans_def ex_buffer_def)
  have c: "fst (apply_elements (\<lambda>e. [120, 121, 122]) ex_spans (ex_buffer, ex_stats, False))
       = [120, 121, 122, 32, 99, 100, 32, 120, 121, 122]"
    using t a by simp
  have h1': "list_all (span_of ex_buffer) ex_spans" using h1 by (simp add: list_all_iff)
  show ?thesis using h1' h2 h3 b c by blast
qed

section \<open>Documentation line mode\<close>

lemma fst_markdown_lines: "fst (markdown_lines tr ls) = map (markdown_line tr) ls"
  by (induction ls) (auto simp: markdown_line_def split: prod.splits option.splits)

lemma snd_markdown_lines:
  "snd (markdown_lines tr ls) = length (filter (\<lambda>l. contains_chinese l \<and> tr l \<noteq> None) ls)"
  by (induction ls) (auto split: prod.splits option.splits)

lemma split_on_not_Nil: "split_on sep s \<noteq> []"
  by (induction s) (auto split: list.splits)

lemma split_on_no_sep: "sep \<notin> set s \<Longrightarrow> split_on sep s = [s]"
  by (induction s) auto

lemma split_on_append:
  "split_on sep (a @ sep # b) = split_on sep a @ split_on sep b"
proof (induction a)
  case Nil then show ?case by simp
next
  case (Cons c a)
  obtain l ls where "split_on sep a = l # ls" using split_on_not_Nil by (cases "split_on sep a") auto
  with Cons show ?case by (auto split: list.splits)
qed

lemma split_on_join:
  "ls \<noteq> [] \<Longrightarrow> split_on sep (join [sep] ls) = concat (map (split_on sep) ls)"
proof (induction "[sep]" ls rule: join.induct)
  case 1 then show ?case by simp
next
  case (2 p) then show ?case by simp
next
  case (3 p q ps)
  then show ?case by (simp add: split_on_append)
qed

lemma join_split_on: "join [sep] (split_on sep s) = s"
proof (induction s)
  case Nil then show ?case by simp
next
  case (Cons c s)
  obtain l ls where e: "split_on sep s = l # ls" using split_on_not_Nil by (cases "split_on sep s") auto
  show ?case
  proof (cases "c = sep")
    case True
    with Cons e show ?thesis by simp
  next
    case False
    with Cons e show ?thesis by (cases ls) auto
  qed
qed

lemma split_on_lines_no_sep: "l \<in> set (split_on sep s) \<Longrightarrow> sep \<notin> set l"
proof (induction s arbitrary: l)
  case Nil then show ?case by simp
next
  case (Cons c s)
  obtain x xs where e: "split_on sep s = x # xs" using split_on_not_Nil by (cases "split_on sep s") auto
  show ?case
  proof (cases "c = sep")
    case True
    with Cons show ?thesis by auto
  next
    case False
    with Cons e show ?thesis by auto
  qed
qed

text \<open>
  C8 (as amended). Line mode on a documentation buffer splits it into lines and keeps the
  length and the order of that list: a line without source-script characters stays as it
  is, a line with them becomes its translation (or stays, when the call raises). The new
  buffer is the list joined by newlines; it has the same number of lines as the buffer read
  when no translation holds a newline. \<open>process_file\<close> on the documentation type is this
  and nothing else: no scanner, no counter of comments, strings or identifiers.
\<close>

theorem markdown_line_mode:
  "length (fst (markdown_lines tr (split_on 10 content))) = length (split_on 10 content)
   \<and> (\<forall>i < length (split_on 10 content).
         fst (markdown_lines tr (split_on 10 content)) ! i
           = (if contains_chinese (split_on 10 content ! i)
              then (case tr (split_on 10 content ! i) of Some translated \<Rightarrow> translated
                    | None \<Rightarrow> split_on 10 content ! i)
              else split_on 10 content ! i))
   \<and> fst (process_markdown_file tr content st) = join [10] (fst (markdown_lines tr (split_on 10 content)))
   \<and> ((\<forall>line translated. tr line = Some translated \<longrightarrow> 10 \<notin> set translated) \<longrightarrow>
        split_on 10 (fst (process_markdown_file tr content st)) = fst (markdown_lines tr (split_on 10 content)))
   \<and> process_file u tr ''.md'' content st
       = (if 0 < snd (markdown_lines tr (split_on 10 content))
          then (True, join [10] (fst (markdown_lines tr (split_on 10 content))),
                st\<lparr>translated_markdown := translated_markdown st + snd (markdown_lines tr (split_on 10 content)),
                   processed_files := processed_files st + 1\<rparr>)
          else (False, content, st))"
proof -
  let ?ls = "split_on 10 content"
  have 1: "length (fst (markdown_lines tr ?ls)) = length ?ls" by (simp add: fst_markdown_lines)
  have 2: "\<forall>i < length ?ls. fst (markdown_lines tr ?ls) ! i
           = (if contains_chinese (?ls ! i)
              then (case tr (?ls ! i) of Some translated \<Rightarrow> translated | None \<Rightarrow> ?ls ! i)
              else ?ls ! i)"
    by (simp add: fst_markdown_lines markdown_line_def)
  have 3: "fst (process_markdown_file tr content st) = join [10] (fst (markdown_lines tr ?ls))"
    by (simp add: process_markdown_file_def split: prod.splits)
  have 4: "split_on 10 (fst (process_markdown_file tr content st)) = fst (markdown_lines tr ?ls)"
    if h: "\<forall>line translated. tr line = Some translated \<longrightarrow> 10 \<notin> set translated"
  proof -
    have one: "split_on 10 (markdown_line tr l) = [markdown_line tr l]" if "l \<in> set ?ls" for l
    proof -
      have "10 \<notin> set l" using that by (rule split_on_lines_no_sep)
      then have "10 \<notin> set (markdown_line tr l)"
        using h by (auto simp: markdown_line_def split: option.splits)
      then show ?thesis by (rule split_on_no_sep)
    qed
    have "concat (map (split_on 10) (map (markdown_line tr) xs)) = map (markdown_line tr) xs"
      if "set xs \<subseteq> set ?ls" for xs
      using that by (induction xs) (auto simp: one)
    then have "concat (map (split_on 10) (map (markdown_line tr) ?ls)) = map (markdown_line tr) ?ls"
      by simp
    moreover have "map (markdown_line tr) ?ls \<noteq> []" by (simp add: split_on_not_Nil)
    ultimately show ?thesis using 3 by (simp add: fst_markdown_lines split_on_join)
  qed
  have 5: "process_file u tr ''.md'' content st
       = (if 0 < snd (markdown_lines tr ?ls)
          then (True, join [10] (fst (markdown_lines tr ?ls)),
                st\<lparr>translated_markdown := translated_markdown st + snd (markdown_lines tr ?ls),
                   processed_files := processed_files st + 1\<rparr>)
          else (False, content, st))"
    by (cases "markdown_lines tr ?ls") (auto simp: process_file_def process_markdown_file_def)
  show ?thesis using 1 2 3 4 5 by blast
qed

theorem markdown_line_mode_witness:
  "split_on 10 md_ex = [[97], [20013]]
   \<and> fst (markdown_lines md_tr (split_on 10 md_ex)) = [[97], ascii ''middle'']
   \<and> split_on 10 (fst (process_markdown_file md_tr md_ex ex_stats)) = [[97], ascii ''middle'']
   \<and> fst (process_file ascii_cjk md_tr ''.md'' md_ex ex_stats)"
proof -
  note t = markdown_line_mode[of md_tr md_ex ex_stats ascii_cjk]
  have h: "\<forall>line translated. md_tr line = Some translated \<longrightarrow> 10 \<notin> set translated"
    by (auto simp: md_tr_def ascii_def)
  have a: "split_on 10 md_ex = [[97], [20013]]" by (simp add: md_ex_def)
  have b: "fst (markdown_lines md_tr (split_on 10 md_ex)) = [[97], ascii ''middle'']"
    by (simp add: a md_tr_def contains_chinese_def is_chinese_def)
  have c: "snd (markdown_lines md_tr (split_on 10 md_ex)) = 1"
    by (simp add: a md_tr_def contains_chinese_def is_chinese_def)
  have "split_on 10 (fst (process_markdown_file md_tr md_ex ex_stats))
          = fst (markdown_lines md_tr (split_on 10 md_ex))"
    using t h by blast
  moreover have "fst (process_file ascii_cjk md_tr ''.md'' md_ex ex_stats)"
    using t c by simp
  ultimately show ?thesis using a b by simp
qed

section \<open>Running the model on the examples\<close>

lemmas pat_defs = variable_head_def variable_group_def chinese_word_def type_keyword_def
  ident_char_def is_chinese_def ascii_def dot_def any_char_def string_pattern_def
  slash_comment_def block_comment_def hash_comment_def triple_quoted_def comment_patterns_def
lemmas ev_defs = finditer_group_def finditer_def match_at_def at_boundary_def is_word_def ascii_cjk_def
  slice_def splice_def
lemmas ex_defs = extract_identifiers_def extract_comments_def extract_strings_def
  declaration_span_def usage_span_def usage_guard_def comment_span_def string_span_def
  sorted_desc_def contains_chinese_def strip_def lstrip_def startswith_def endswith_def
lemmas tr_defs = translate_text_def translate_identifier_def translate_identifier_name_def
  translate_comment_def translate_string_def snake_case_of_def underscore_runs_def
  split_ws_def replace_def
lemmas pf_defs = process_file_def process_markdown_file_def ex_stats_def

text \<open>With a translation that holds a newline, a buffer of two lines becomes one of
  three.\<close>

theorem markdown_line_count_grows:
  "split_on 10 two_line_ex = [[20013], [120]]
   \<and> fst (snd (process_file ascii_cjk newline_tr ''.md'' two_line_ex ex_stats)) = [97, 10, 98, 10, 120]
   \<and> split_on 10 (fst (snd (process_file ascii_cjk newline_tr ''.md'' two_line_ex ex_stats)))
       = [[97], [98], [120]]
   \<and> length (split_on 10 (fst (snd (process_file ascii_cjk newline_tr ''.md'' two_line_ex ex_stats))))
       \<noteq> length (split_on 10 two_line_ex)"
  by (simp add: two_line_ex_def newline_tr_def pf_defs contains_chinese_def is_chinese_def)

lemma comment_ex_run:
  "process_file ascii_cjk md_tr ''.py'' comment_ex ex_stats =
     (True, ascii ''# middle'',
      \<lparr>processed_files = 1, translated_comments = 1, translated_strings = 0,
        translated_markdown = 0, translated_identifiers = 0\<rparr>)"
  by (simp add: comment_ex_def md_tr_def pat_defs ev_defs ex_defs tr_defs pf_defs)

lemma swap_ex_run:
  "process_file ascii_cjk swap_tr ''.c'' swap_ex ex_stats =
     (False, swap_ex,
      \<lparr>processed_files = 0, translated_comments = 1, translated_strings = 0,
        translated_markdown = 0, translated_identifiers = 1\<rparr>)"
  by (simp add: swap_ex_def swap_tr_def pat_defs ev_defs ex_defs tr_defs pf_defs)

lemma md_same_run:
  "process_file ascii_cjk (\<lambda>line. Some line) ''.md'' [20013] ex_stats =
     (True, [20013],
      \<lparr>processed_files = 1, translated_comments = 0, translated_strings = 0,
        translated_markdown = 1, translated_identifiers = 0\<rparr>)"
  by (simp add: pf_defs contains_chinese_def is_chinese_def)

section \<open>The write decision and the counters\<close>

lemma markdown_unchanged:
  assumes "snd (markdown_lines tr (split_on 10 content)) = 0"
  shows "join [10] (fst (markdown_lines tr (split_on 10 content))) = content"
proof -
  have "filter (\<lambda>l. contains_chinese l \<and> tr l \<noteq> None) (split_on 10 content) = []"
    using assms by (simp add: snd_markdown_lines)
  then have "\<forall>l \<in> set (split_on 10 content). \<not> (contains_chinese l \<and> tr l \<noteq> None)"
    by (simp add: filter_empty_conv)
  then have "map (markdown_line tr) (split_on 10 content) = split_on 10 content"
    by (intro map_idI) (auto simp: markdown_line_def split: option.splits)
  then show ?thesis by (simp add: fst_markdown_lines join_split_on)
qed

lemma process_file_markdown:
  "process_file u tr ''.md'' content st =
     (0 < length (filter (\<lambda>l. contains_chinese l \<and> tr l \<noteq> None) (split_on 10 content)),
      fst (process_markdown_file tr content st),
      st\<lparr>translated_markdown := translated_markdown st
             + length (filter (\<lambda>l. contains_chinese l \<and> tr l \<noteq> None) (split_on 10 content)),
         processed_files := processed_files st
             + (if 0 < length (filter (\<lambda>l. contains_chinese l \<and> tr l \<noteq> None) (split_on 10 content)) then 1 else 0)\<rparr>)"
proof -
  let ?n = "length (filter (\<lambda>l. contains_chinese l \<and> tr l \<noteq> None) (split_on 10 content))"
  obtain ls n where ml: "markdown_lines tr (split_on 10 content) = (ls, n)"
    by (cases "markdown_lines tr (split_on 10 content)")
  have n: "n = ?n" using snd_markdown_lines[of tr "split_on 10 content"] ml by simp
  have raw: "process_file u tr ''.md'' content st =
       (if 0 < n then (True, join [10] ls,
                       st\<lparr>translated_markdown := translated_markdown st + n,
                          processed_files := processed_files st + 1\<rparr>)
        else (False, content, st))"
    using ml by (auto simp: process_file_def process_markdown_file_def)
  have pm: "fst (process_markdown_file tr content st) = join [10] ls"
    using ml by (simp add: process_markdown_file_def)
  show ?thesis
  proof (cases "n = 0")
    case True
    have "join [10] ls = content" using markdown_unchanged[of tr content] ml True by simp
    then show ?thesis using raw pm True n by simp
  next
    case False
    then show ?thesis using raw pm n by simp
  qed
qed

lemma apply_identifiers_eq:
  "apply_identifiers T es (c, st, ch) =
     (patched T es c,
      st\<lparr>translated_identifiers := translated_identifiers st + length (applied T es)\<rparr>,
      ch \<or> applied T es \<noteq> [])"
  by (induction es arbitrary: c st ch) (auto simp: applied_def Let_def)

lemma apply_elements_eq:
  "apply_elements T es (c, st, ch) =
     (patched T es c,
      st\<lparr>translated_comments := translated_comments st + length (filter (\<lambda>e. sp_type e = Comment) (applied T es)),
         translated_strings := translated_strings st + length (filter (\<lambda>e. sp_type e \<noteq> Comment) (applied T es))\<rparr>,
      ch \<or> applied T es \<noteq> [])"
  by (induction es arbitrary: c st ch) (auto simp: applied_def Let_def)

lemma patched_none: "applied T es = [] \<Longrightarrow> patched T es c = c"
  by (induction es arbitrary: c) (auto simp: applied_def split: if_splits)

lemma process_file_code:
  assumes "file_extension \<noteq> ''.md''"
  shows "process_file u tr file_extension content st =
    (let T = translate_text u tr;
         ids = extract_identifiers u content file_extension;
         els = elements_of u (after_identifiers u tr file_extension content) file_extension;
         new_content = final_buffer u tr file_extension content;
         st2 = st\<lparr>translated_identifiers := translated_identifiers st + length (applied T ids),
                  translated_comments := translated_comments st + length (filter (\<lambda>e. sp_type e = Comment) (applied T els)),
                  translated_strings := translated_strings st + length (filter (\<lambda>e. sp_type e \<noteq> Comment) (applied T els))\<rparr>
     in if new_content \<noteq> content
        then (True, new_content, st2\<lparr>processed_files := processed_files st2 + 1\<rparr>)
        else (False, content, st2))"
proof -
  let ?T = "translate_text u tr"
  let ?ids = "extract_identifiers u content file_extension"
  have ch: "final_buffer u tr file_extension content \<noteq> content \<Longrightarrow>
      applied ?T ?ids \<noteq> [] \<or> applied ?T (elements_of u (after_identifiers u tr file_extension content) file_extension) \<noteq> []"
    unfolding final_buffer_def after_identifiers_def
    by (metis patched_none)
  have ids0: "?ids = [] \<Longrightarrow> applied ?T ?ids = []" by (simp add: applied_def)
  show ?thesis
    using assms ch
    by (cases "?ids = []")
       (auto simp: process_file_def Let_def apply_identifiers_eq apply_elements_eq
          final_buffer_def after_identifiers_def elements_of_def applied_def)
qed

text \<open>
  C7 (as amended). On the span-based path the file is written exactly when the final
  buffer differs from the buffer read, and the file holds the final buffer afterwards
  either way. On the documentation path the file is written exactly when some line with
  source-script characters was translated without an error, whether or not the buffer
  changed; the file holds the line-mode result.
\<close>

theorem write_decision:
  "(file_extension \<noteq> ''.md'' \<longrightarrow>
      fst (process_file u tr file_extension content st)
        = (final_buffer u tr file_extension content \<noteq> content)
      \<and> fst (snd (process_file u tr file_extension content st))
        = final_buffer u tr file_extension content)
   \<and> fst (process_file u tr ''.md'' content st)
        = list_ex (\<lambda>line. contains_chinese line \<and> tr line \<noteq> None) (split_on 10 content)
   \<and> fst (snd (process_file u tr ''.md'' content st)) = fst (process_markdown_file tr content st)"
proof -
  have 1: "fst (process_file u tr file_extension content st)
        = (final_buffer u tr file_extension content \<noteq> content)
      \<and> fst (snd (process_file u tr file_extension content st))
        = final_buffer u tr file_extension content" if "file_extension \<noteq> ''.md''"
    using process_file_code[OF that, of u tr content st] by (simp add: Let_def)
  have 2: "fst (process_file u tr ''.md'' content st)
        = list_ex (\<lambda>line. contains_chinese line \<and> tr line \<noteq> None) (split_on 10 content)"
    by (simp add: process_file_markdown list_ex_iff filter_empty_conv)
  have 3: "fst (snd (process_file u tr ''.md'' content st)) = fst (process_markdown_file tr content st)"
    by (simp add: process_file_markdown)
  show ?thesis using 1 2 3 by blast
qed

theorem write_decision_witness:
  "''.py'' \<noteq> ''.md''
   \<and> fst (process_file ascii_cjk md_tr ''.py'' comment_ex ex_stats)
   \<and> final_buffer ascii_cjk md_tr ''.py'' comment_ex = ascii ''# middle''
   \<and> final_buffer ascii_cjk md_tr ''.py'' comment_ex \<noteq> comment_ex"
proof -
  have h: "''.py'' \<noteq> ''.md''" by simp
  have "fst (snd (process_file ascii_cjk md_tr ''.py'' comment_ex ex_stats))
          = final_buffer ascii_cjk md_tr ''.py'' comment_ex"
    and "fst (process_file ascii_cjk md_tr ''.py'' comment_ex ex_stats)
          = (final_buffer ascii_cjk md_tr ''.py'' comment_ex \<noteq> comment_ex)"
    using write_decision[of "''.py''" ascii_cjk md_tr comment_ex ex_stats] h by blast+
  then show ?thesis using h by (simp add: comment_ex_run)
qed

theorem written_without_difference:
  "process_file ascii_cjk (\<lambda>line. Some line) ''.md'' [20013] ex_stats =
     (True, [20013],
      \<lparr>processed_files = 1, translated_comments = 0, translated_strings = 0,
        translated_markdown = 1, translated_identifiers = 0\<rparr>)"
  by (rule md_same_run)

text \<open>
  C6 (as amended). The counters are incremented while the spans are processed, before and
  independently of the write decision: the identifier counter by the number of identifier
  spans whose translation differs from the span text, the comment and the string counter by
  the number of such comment and string spans on the buffer after the identifier pass, and
  the documentation counter by the number of lines translated without an error. A span
  whose translation is its own text, as after a failed call, is not counted.
\<close>

theorem counters_count_substitutions:
  "(file_extension \<noteq> ''.md'' \<longrightarrow>
      translated_identifiers (snd (snd (process_file u tr file_extension content st)))
        = translated_identifiers st
          + length (applied (translate_text u tr) (extract_identifiers u content file_extension))
      \<and> translated_comments (snd (snd (process_file u tr file_extension content st)))
        = translated_comments st
          + length (filter (\<lambda>e. sp_type e = Comment)
              (applied (translate_text u tr)
                 (elements_of u (after_identifiers u tr file_extension content) file_extension)))
      \<and> translated_strings (snd (snd (process_file u tr file_extension content st)))
        = translated_strings st
          + length (filter (\<lambda>e. sp_type e \<noteq> Comment)
              (applied (translate_text u tr)
                 (elements_of u (after_identifiers u tr file_extension content) file_extension)))
      \<and> translated_markdown (snd (snd (process_file u tr file_extension content st)))
        = translated_markdown st)
   \<and> translated_markdown (snd (snd (process_file u tr ''.md'' content st)))
        = translated_markdown st
          + length (filter (\<lambda>line. contains_chinese line \<and> tr line \<noteq> None) (split_on 10 content))
   \<and> translated_identifiers (snd (snd (process_file u tr ''.md'' content st))) = translated_identifiers st
   \<and> translated_comments (snd (snd (process_file u tr ''.md'' content st))) = translated_comments st
   \<and> translated_strings (snd (snd (process_file u tr ''.md'' content st))) = translated_strings st"
proof -
  have 1: "file_extension \<noteq> ''.md'' \<Longrightarrow> ?thesis"
    using process_file_code[of file_extension u tr content st]
    by (simp add: Let_def process_file_markdown)
  have 2: "file_extension = ''.md'' \<Longrightarrow> ?thesis"
    by (simp add: process_file_markdown)
  show ?thesis using 1 2 by blast
qed

theorem counters_count_substitutions_witness:
  "''.py'' \<noteq> ''.md''
   \<and> translated_comments (snd (snd (process_file ascii_cjk md_tr ''.py'' comment_ex ex_stats))) = 1
   \<and> length (filter (\<lambda>e. sp_type e = Comment)
        (applied (translate_text ascii_cjk md_tr)
           (elements_of ascii_cjk (after_identifiers ascii_cjk md_tr ''.py'' comment_ex) ''.py''))) = 1"
proof -
  have h: "''.py'' \<noteq> ''.md''" by simp
  have "translated_comments (snd (snd (process_file ascii_cjk md_tr ''.py'' comment_ex ex_stats)))
        = translated_comments ex_stats
          + length (filter (\<lambda>e. sp_type e = Comment)
              (applied (translate_text ascii_cjk md_tr)
                 (elements_of ascii_cjk (after_identifiers ascii_cjk md_tr ''.py'' comment_ex) ''.py'')))"
    using counters_count_substitutions[of "''.py''" ascii_cjk md_tr comment_ex ex_stats] h by blast
  then show ?thesis using h unfolding comment_ex_run by (simp add: ex_stats_def)
qed

theorem counted_without_write:
  "process_file ascii_cjk swap_tr ''.c'' swap_ex ex_stats =
     (False, swap_ex,
      \<lparr>processed_files = 0, translated_comments = 1, translated_strings = 0,
        translated_markdown = 0, translated_identifiers = 1\<rparr>)"
  by (rule swap_ex_run)

section \<open>Spans of one pass\<close>

text \<open>
  C2. The spans of one pass should not overlap. On the declaration \<open>int\<close> followed by a
  three-character name in the source script, the usage rule matches the name once more
  inside the match of the declaration rule: the identifier pass holds the spans \<open>(4, 7)\<close>
  and \<open>(0, 7)\<close>, applies both, and writes \<open>int counternter\<close>. On a comment that holds a
  string literal, the comment/string pass holds the spans \<open>(3, 6)\<close> and \<open>(0, 6)\<close>.
\<close>

theorem identifier_pass_overlaps:
  "map span_range (extract_identifiers ascii_cjk decl_ex ''.c'')
     = [(4, 7, VariableUsage), (0, 7, VariableDeclaration)]
   \<and> overlap (extract_identifiers ascii_cjk decl_ex ''.c'' ! 0)
              (extract_identifiers ascii_cjk decl_ex ''.c'' ! 1)
   \<and> process_file ascii_cjk dictionary ''.c'' decl_ex ex_stats
     = (True, ascii ''int counternter'',
        \<lparr>processed_files = 1, translated_comments = 0, translated_strings = 0,
          translated_markdown = 0, translated_identifiers = 2\<rparr>)
   \<and> map span_range (elements_of ascii_cjk quoted_comment_ex ''.c'')
     = [(3, 6, String), (0, 6, Comment)]
   \<and> overlap (elements_of ascii_cjk quoted_comment_ex ''.c'' ! 0)
              (elements_of ascii_cjk quoted_comment_ex ''.c'' ! 1)"
proof -
  have ids: "extract_identifiers ascii_cjk decl_ex ''.c'' =
    [\<lparr>sp_start = 4, sp_end = 7, sp_text = [35745, 25968, 22120],
       sp_type = VariableUsage, sp_name = [35745, 25968, 22120],
       sp_full_match = [35745, 25968, 22120], sp_content = []\<rparr>,
     \<lparr>sp_start = 0, sp_end = 7, sp_text = ascii ''int '' @ [35745, 25968, 22120],
       sp_type = VariableDeclaration, sp_name = [35745, 25968, 22120],
       sp_full_match = ascii ''int '' @ [35745, 25968, 22120], sp_content = []\<rparr>]"
    by (simp add: decl_ex_def pat_defs ev_defs ex_defs)
  have els: "elements_of ascii_cjk quoted_comment_ex ''.c'' =
    [\<lparr>sp_start = 3, sp_end = 6, sp_text = [34, 20013, 34],
       sp_type = String, sp_name = [], sp_full_match = [], sp_content = [20013]\<rparr>,
     \<lparr>sp_start = 0, sp_end = 6, sp_text = ascii ''// '' @ [34, 20013, 34],
       sp_type = Comment, sp_name = [], sp_full_match = [], sp_content = []\<rparr>]"
    by (simp add: quoted_comment_ex_def elements_of_def pat_defs ev_defs ex_defs)
  have run: "process_file ascii_cjk dictionary ''.c'' decl_ex ex_stats
     = (True, ascii ''int counternter'',
        \<lparr>processed_files = 1, translated_comments = 0, translated_strings = 0,
          translated_markdown = 0, translated_identifiers = 2\<rparr>)"
    by (simp add: decl_ex_def dictionary_def pat_defs ev_defs ex_defs tr_defs pf_defs)
  show ?thesis unfolding ids els using run by (simp add: span_range_def overlap_def)
qed

section \<open>Failures of the translation call\<close>

lemma translate_text_fallback:
  assumes "\<forall>t. tr t = None"
    and "sp_type e = Comment \<or> sp_type e = String \<or> (sp_type e = VariableUsage \<and> sp_name e = sp_text e)"
  shows "translate_text u tr e = sp_text e"
  using assms
  by (cases "sp_type e")
     (auto simp: translate_text_def translate_comment_def translate_string_def
        translate_identifier_def translate_identifier_name_def Let_def split: option.splits)

text \<open>
  C3. A failed translation call should leave the span's text in place. For the declaration
  \<open>int\<close>, two spaces and a name, with a translation service that raises, the wrapper
  returns the text with one space: the span is rewritten and counted.
\<close>

theorem failed_declaration_is_rewritten:
  "map span_range (extract_identifiers ascii_cjk wide_decl_ex ''.c'')
     = [(5, 8, VariableUsage), (0, 8, VariableDeclaration)]
   \<and> sp_text (extract_identifiers ascii_cjk wide_decl_ex ''.c'' ! 1) = wide_decl_ex
   \<and> translate_text ascii_cjk failing (extract_identifiers ascii_cjk wide_decl_ex ''.c'' ! 1)
     = ascii ''int '' @ [35745, 25968, 22120]
   \<and> process_file ascii_cjk failing ''.c'' wide_decl_ex ex_stats
     = (True, ascii ''int '' @ [35745, 25968, 22120],
        \<lparr>processed_files = 1, translated_comments = 0, translated_strings = 0,
          translated_markdown = 0, translated_identifiers = 1\<rparr>)"
proof -
  have ids: "extract_identifiers ascii_cjk wide_decl_ex ''.c'' =
    [\<lparr>sp_start = 5, sp_end = 8, sp_text = [35745, 25968, 22120],
       sp_type = VariableUsage, sp_name = [35745, 25968, 22120],
       sp_full_match = [35745, 25968, 22120], sp_content = []\<rparr>,
     \<lparr>sp_start = 0, sp_end = 8, sp_text = ascii ''int  '' @ [35745, 25968, 22120],
       sp_type = VariableDeclaration, sp_name = [35745, 25968, 22120],
       sp_full_match = ascii ''int  '' @ [35745, 25968, 22120], sp_content = []\<rparr>]"
    by (simp add: wide_decl_ex_def pat_defs ev_defs ex_defs)
  have run: "process_file ascii_cjk failing ''.c'' wide_decl_ex ex_stats
     = (True, ascii ''int '' @ [35745, 25968, 22120],
        \<lparr>processed_files = 1, translated_comments = 0, translated_strings = 0,
          translated_markdown = 0, translated_identifiers = 1\<rparr>)"
    by (simp add: wide_decl_ex_def failing_def pat_defs ev_defs ex_defs tr_defs pf_defs)
  show ?thesis unfolding ids using run
    by (simp add: span_range_def wide_decl_ex_def failing_def pat_defs ev_defs ex_defs tr_defs)
qed

section \<open>Rewriting a declaration\<close>

text \<open>
  C5. Rewriting a declaration span should keep the type keyword and the pointer marker and
  replace the name only. For \<open>char * \<close> and a name, the name of the span is the asterisk,
  the space and the word, the translated name carries the asterisk again, and the last of
  the three parts is replaced by it: the result has two asterisks. The declaration of the
  spec's example becomes \<open>int counter\<close>.
\<close>

theorem pointer_marker_is_doubled:
  "map span_range (extract_identifiers ascii_cjk pointer_decl_ex ''.c'')
     = [(7, 9, VariableUsage), (0, 9, VariableDeclaration)]
   \<and> sp_text (extract_identifiers ascii_cjk pointer_decl_ex ''.c'' ! 1) = ascii ''char * '' @ [28040, 24687]
   \<and> translate_identifier ascii_cjk dictionary (extract_identifiers ascii_cjk pointer_decl_ex ''.c'' ! 1)
     = ascii ''char * *message''
   \<and> translate_identifier ascii_cjk dictionary (extract_identifiers ascii_cjk decl_ex ''.c'' ! 1)
     = ascii ''int counter''"
proof -
  have ids: "extract_identifiers ascii_cjk pointer_decl_ex ''.c'' =
    [\<lparr>sp_start = 7, sp_end = 9, sp_text = [28040, 24687],
       sp_type = VariableUsage, sp_name = [28040, 24687],
       sp_full_match = [28040, 24687], sp_content = []\<rparr>,
     \<lparr>sp_start = 0, sp_end = 9, sp_text = ascii ''char * '' @ [28040, 24687],
       sp_type = VariableDeclaration, sp_name = [42, 32, 28040, 24687],
       sp_full_match = ascii ''char * '' @ [28040, 24687], sp_content = []\<rparr>]"
    by (simp add: pointer_decl_ex_def pat_defs ev_defs ex_defs)
  have ids2: "extract_identifiers ascii_cjk decl_ex ''.c'' ! 1 =
     \<lparr>sp_start = 0, sp_end = 7, sp_text = ascii ''int '' @ [35745, 25968, 22120],
       sp_type = VariableDeclaration, sp_name = [35745, 25968, 22120],
       sp_full_match = ascii ''int '' @ [35745, 25968, 22120], sp_content = []\<rparr>"
    by (simp add: decl_ex_def pat_defs ev_defs ex_defs)
  show ?thesis unfolding ids ids2
    by (simp add: span_range_def dictionary_def pat_defs ev_defs ex_defs tr_defs)
qed

section \<open>The identifier normalizer\<close>



lemma set_strip: "set (strip u s) \<subseteq> set s"
proof -
  have "set (strip u s) \<subseteq> set (dropWhile (is_space u) s)"
    unfolding strip_def using set_dropWhileD[of _ "is_space u" "rev (dropWhile (is_space u) s)"] by auto
  also have "\<dots> \<subseteq> set s" using set_dropWhileD[of _ "is_space u" s] by auto
  finally show ?thesis .
qed





section \<open>The string-literal extractor\<close>









lemma sorted_desc_Nil: "sorted_desc [] = []"
  by (simp add: sorted_desc_def)








section \<open>Running the pipeline again\<close>

lemma chinese_slice: "contains_chinese (slice content a b) \<Longrightarrow> contains_chinese content"
proof -
  assume "contains_chinese (slice content a b)"
  then obtain x where x: "x \<in> set (drop a (take b content))" "is_chinese x"
    by (auto simp: contains_chinese_def slice_def list_ex_iff)
  from x(1) have "x \<in> set (take b content)" by (rule in_set_dropD)
  then have "x \<in> set content" by (rule in_set_takeD)
  then show ?thesis using x(2) by (auto simp: contains_chinese_def list_ex_iff)
qed

lemma chinese_strip: "contains_chinese (strip u s) \<Longrightarrow> contains_chinese s"
proof -
  assume "contains_chinese (strip u s)"
  then obtain x where "x \<in> set (strip u s)" "is_chinese x"
    by (auto simp: contains_chinese_def list_ex_iff)
  moreover have "set (strip u s) \<subseteq> set s" by (rule set_strip)
  ultimately show ?thesis by (auto simp: contains_chinese_def list_ex_iff)
qed

lemma plain_slice: "\<not> contains_chinese content \<Longrightarrow> \<not> contains_chinese (slice content a b)"
  using chinese_slice by blast

lemma extract_comments_plain:
  assumes "\<not> contains_chinese content"
  shows "extract_comments u content ext = []"
proof -
  have "\<not> contains_chinese (sp_text (comment_span content m))" for m
    using plain_slice[OF assms] by (simp add: comment_span_def)
  then have "filter (\<lambda>c. contains_chinese (sp_text c)) (map (comment_span content) ms) = []" for ms
    by (simp add: filter_empty_conv)
  then show ?thesis by (simp add: extract_comments_def sorted_desc_Nil split: option.splits)
qed

lemma extract_strings_plain:
  assumes "\<not> contains_chinese content"
  shows "extract_strings u content ext = []"
proof -
  have "\<not> contains_chinese (sp_content (string_span content m))" for m
    using plain_slice[OF plain_slice[OF assms]] by (simp add: string_span_def Let_def)
  then have "filter (\<lambda>s. contains_chinese (sp_content s)) (map (string_span content) ms) = []" for ms
    by (simp add: filter_empty_conv)
  then show ?thesis by (simp add: extract_strings_def sorted_desc_Nil)
qed

lemma extract_identifiers_plain:
  assumes "\<not> contains_chinese content"
  shows "extract_identifiers u content ext = []"
proof -
  have d: "\<not> contains_chinese (sp_name (declaration_span u content m))" for m
  proof (cases m)
    case (fields i j k e)
    have "\<not> contains_chinese (strip u (slice content j k))"
      using plain_slice[OF assms] chinese_strip by blast
    then show ?thesis using fields by (simp add: declaration_span_def)
  qed
  have g: "\<not> contains_chinese (sp_name (usage_span content m))" for m
  proof (cases m)
    case (fields i j k e)
    then show ?thesis using plain_slice[OF assms] by (simp add: usage_span_def)
  qed
  have 1: "filter (\<lambda>d. contains_chinese (sp_name d)) (map (declaration_span u content) ms) = []" for ms
    using d by (simp add: filter_empty_conv)
  have 2: "filter (\<lambda>d. contains_chinese (sp_name d)) (map (usage_span content) ms) = []" for ms
    using g by (simp add: filter_empty_conv)
  show ?thesis unfolding extract_identifiers_def by (simp only: 1 2 sorted_desc_Nil append_Nil if_cancel)
qed

lemma split_on_set: "l \<in> set (split_on sep s) \<Longrightarrow> set l \<subseteq> set s"
proof (induction s arbitrary: l)
  case Nil then show ?case by simp
next
  case (Cons c s)
  obtain x xs where e: "split_on sep s = x # xs" using split_on_not_Nil by (cases "split_on sep s") auto
  show ?case
  proof (cases "c = sep")
    case True
    then have "l = [] \<or> l \<in> set (split_on sep s)" using Cons.prems by auto
    then show ?thesis using Cons.IH by auto
  next
    case False
    then have "l = c # x \<or> l \<in> set xs" using Cons.prems e by auto
    moreover have "set x \<subseteq> set s" using Cons.IH[of x] e by simp
    moreover have "l \<in> set xs \<Longrightarrow> set l \<subseteq> set s" using Cons.IH[of l] e by simp
    ultimately show ?thesis by auto
  qed
qed

lemma chinese_line:
  assumes "l \<in> set (split_on sep s)" "contains_chinese l"
  shows "contains_chinese s"
proof -
  from assms(2) obtain x where "x \<in> set l" "is_chinese x"
    by (auto simp: contains_chinese_def list_ex_iff)
  moreover have "set l \<subseteq> set s" using assms(1) by (rule split_on_set)
  ultimately show ?thesis by (auto simp: contains_chinese_def list_ex_iff)
qed

lemma fst_process_markdown_file:
  "fst (process_markdown_file tr content st) = join [10] (map (markdown_line tr) (split_on 10 content))"
proof -
  obtain ls n where ml: "markdown_lines tr (split_on 10 content) = (ls, n)"
    by (cases "markdown_lines tr (split_on 10 content)")
  then have "ls = map (markdown_line tr) (split_on 10 content)"
    using fst_markdown_lines[of tr "split_on 10 content"] by simp
  then show ?thesis using ml by (simp add: process_markdown_file_def)
qed

lemma no_source_script_no_op:
  assumes "\<not> contains_chinese content"
  shows "process_file u tr file_extension content st = (False, content, st)"
proof (cases "file_extension = ''.md''")
  case True
  have "\<forall>l \<in> set (split_on 10 content). \<not> contains_chinese l"
    using assms chinese_line by blast
  then have "filter (\<lambda>l. contains_chinese l \<and> tr l \<noteq> None) (split_on 10 content) = []"
    by (simp add: filter_empty_conv)
  then have n: "snd (markdown_lines tr (split_on 10 content)) = 0" by (simp add: snd_markdown_lines)
  obtain ls k where ml: "markdown_lines tr (split_on 10 content) = (ls, k)"
    by (cases "markdown_lines tr (split_on 10 content)")
  then have "k = 0" using n by simp
  then show ?thesis using True ml by (simp add: process_file_def process_markdown_file_def)
next
  case False
  have 1: "extract_identifiers u content file_extension = []"
    using assms by (rule extract_identifiers_plain)
  have 2: "extract_comments u content file_extension = []"
    using assms by (rule extract_comments_plain)
  have 3: "extract_strings u content file_extension = []"
    using assms by (rule extract_strings_plain)
  show ?thesis using False by (simp add: process_file_def 1 2 3 sorted_desc_Nil)
qed

lemma markdown_twice:
  assumes "\<forall>line translated. tr line = Some translated \<longrightarrow> \<not> contains_chinese translated"
  shows "fst (process_markdown_file tr (fst (process_markdown_file tr content st)) st')
         = fst (process_markdown_file tr content st)"
proof -
  let ?ls = "map (markdown_line tr) (split_on 10 content)"
  let ?c1 = "join [10] ?ls"
  have ne: "?ls \<noteq> []" by (simp add: split_on_not_Nil)
  have sp: "split_on 10 ?c1 = concat (map (split_on 10) ?ls)" using ne by (rule split_on_join)
  have stays: "markdown_line tr s = s" if s: "s \<in> set (split_on 10 ?c1)" for s
  proof -
    from s sp obtain l where l: "l \<in> set (split_on 10 content)"
      and s': "s \<in> set (split_on 10 (markdown_line tr l))" by auto
    show ?thesis
    proof (cases "contains_chinese l \<and> tr l \<noteq> None")
      case True
      then obtain t where t: "tr l = Some t" by auto
      then have "markdown_line tr l = t" using True by (simp add: markdown_line_def)
      moreover have "\<not> contains_chinese t" using assms t by blast
      ultimately have "\<not> contains_chinese s" using s' chinese_line[of s 10 t] by auto
      then show ?thesis by (simp add: markdown_line_def)
    next
      case False
      then have same: "markdown_line tr l = l" by (auto simp: markdown_line_def)
      have "10 \<notin> set l" using l by (rule split_on_lines_no_sep)
      then have "split_on 10 l = [l]" by (rule split_on_no_sep)
      then have "s = l" using s' same by simp
      then show ?thesis using same by simp
    qed
  qed
  have "map (markdown_line tr) (split_on 10 ?c1) = split_on 10 ?c1"
    by (rule map_idI) (rule stays)
  then have "join [10] (map (markdown_line tr) (split_on 10 ?c1)) = ?c1"
    by (simp add: join_split_on)
  then show ?thesis by (simp add: fst_process_markdown_file)
qed

text \<open>
  C9 (as amended). A run on a buffer without source-script characters is a no-op, for every
  file type: nothing is written and no counter moves. On a documentation file, when no
  translation holds source-script characters, a second run on the output of the first
  yields the same output. On the span-based path the output of a first run can still hold
  source-script text outside the first run's spans, and a second run can change it.
\<close>

theorem second_run_no_op:
  "(\<not> contains_chinese content \<longrightarrow>
      process_file u tr file_extension content st = (False, content, st))
   \<and> ((\<forall>line translated. tr line = Some translated \<longrightarrow> \<not> contains_chinese translated) \<longrightarrow>
        fst (snd (process_file u tr ''.md'' (fst (snd (process_file u tr ''.md'' content st))) st'))
          = fst (snd (process_file u tr ''.md'' content st)))"
proof -
  have 1: "\<not> contains_chinese content \<longrightarrow>
      process_file u tr file_extension content st = (False, content, st)"
    using no_source_script_no_op by blast
  have 2: "fst (snd (process_file u tr ''.md'' (fst (snd (process_file u tr ''.md'' content st))) st'))
          = fst (snd (process_file u tr ''.md'' content st))"
    if "\<forall>line translated. tr line = Some translated \<longrightarrow> \<not> contains_chinese translated"
    using markdown_twice[OF that] by (simp add: process_file_markdown)
  show ?thesis using 1 2 by blast
qed

theorem second_run_no_op_witness:
  "\<not> contains_chinese (ascii ''int counter'')
   \<and> process_file ascii_cjk dictionary ''.c'' (ascii ''int counter'') ex_stats
       = (False, ascii ''int counter'', ex_stats)
   \<and> fst (snd (process_file ascii_cjk md_tr ''.md'' md_ex ex_stats)) = [97, 10] @ ascii ''middle''
   \<and> fst (snd (process_file ascii_cjk md_tr ''.md''
                  (fst (snd (process_file ascii_cjk md_tr ''.md'' md_ex ex_stats))) ex_stats))
       = [97, 10] @ ascii ''middle''"
proof -
  have h1: "\<not> contains_chinese (ascii ''int counter'')"
    by (simp add: contains_chinese_def is_chinese_def ascii_def)
  have h2: "\<forall>line translated. md_tr line = Some translated \<longrightarrow> \<not> contains_chinese translated"
    by (auto simp: md_tr_def contains_chinese_def is_chinese_def ascii_def)
  have a: "process_file ascii_cjk dictionary ''.c'' (ascii ''int counter'') ex_stats
       = (False, ascii ''int counter'', ex_stats)"
    using second_run_no_op[of "ascii ''int counter''" ascii_cjk dictionary "''.c''" ex_stats] h1 by blast
  have b: "fst (snd (process_file ascii_cjk md_tr ''.md'' md_ex ex_stats)) = [97, 10] @ ascii ''middle''"
    by (simp add: md_ex_def md_tr_def pf_defs contains_chinese_def is_chinese_def)
  have "fst (snd (process_file ascii_cjk md_tr ''.md''
                  (fst (snd (process_file ascii_cjk md_tr ''.md'' md_ex ex_stats))) ex_stats))
        = fst (snd (process_file ascii_cjk md_tr ''.md'' md_ex ex_stats))"
    using second_run_no_op[of md_ex ascii_cjk md_tr "''.md''" ex_stats ex_stats] h2 by blast
  then show ?thesis using h1 a b by simp
qed

text \<open>The first run puts a double quote into the buffer; in the second run the string
  pattern pairs the quotes anew and finds the word that the first run left alone.\<close>

lemma first_run:
  "process_file ascii_cjk quote_tr ''.c'' unbalanced_ex ex_stats =
     (True, [34, 97, 34, 98, 34, 32, 25991, 32, 34],
      \<lparr>processed_files = 1, translated_comments = 0, translated_strings = 1,
        translated_markdown = 0, translated_identifiers = 0\<rparr>)"
  by (simp add: unbalanced_ex_def quote_tr_def pat_defs ev_defs ex_defs tr_defs pf_defs)

lemma second_run:
  "process_file ascii_cjk quote_tr ''.c'' [34, 97, 34, 98, 34, 32, 25991, 32, 34] ex_stats =
     (True, [34, 97, 34, 98, 34] @ ascii ''text'' @ [34],
      \<lparr>processed_files = 1, translated_comments = 0, translated_strings = 1,
        translated_markdown = 0, translated_identifiers = 0\<rparr>)"
  by (simp add: quote_tr_def pat_defs ev_defs ex_defs tr_defs pf_defs)

theorem second_run_changes_output:
  "(\<forall>t. \<not> contains_chinese (the (quote_tr t)))
   \<and> fst (snd (process_file ascii_cjk quote_tr ''.c'' unbalanced_ex ex_stats))
       = [34, 97, 34, 98, 34, 32, 25991, 32, 34]
   \<and> fst (snd (process_file ascii_cjk quote_tr ''.c''
                  (fst (snd (process_file ascii_cjk quote_tr ''.c'' unbalanced_ex ex_stats))) ex_stats))
       = [34, 97, 34, 98, 34] @ ascii ''text'' @ [34]
   \<and> fst (snd (process_file ascii_cjk quote_tr ''.c''
                  (fst (snd (process_file ascii_cjk quote_tr ''.c'' unbalanced_ex ex_stats))) ex_stats))
       \<noteq> fst (snd (process_file ascii_cjk quote_tr ''.c'' unbalanced_ex ex_stats))"
proof -
  have "\<forall>t. \<not> contains_chinese (the (quote_tr t))"
    by (simp add: quote_tr_def contains_chinese_def is_chinese_def ascii_def)
  then show ?thesis unfolding first_run by (simp add: second_run ascii_def)
qed

end
